theory Spec2Isabelle
  imports Complex_Main
begin

section \<open>DiceCrack: a shallow embedding of \<open>app.py\<close>\<close>

text \<open>
  The development follows \<open>src/app.py\<close>. Python strings are modelled by HOL strings,
  read as sequences of code points below 256 (Latin-1); byte strings use the same
  representation, so that decoding Latin-1 is the identity. Library code that is not part of
  the repository (SHA-256, HMAC-SHA512, the UTF-8 decoder, \<open>zipfile\<close>, \<open>gzip\<close>), the
  rounding of float arithmetic and the wall clock are parameters of the model. The interpreter
  is CPython with its default limit of 4300 digits on conversions between \<open>int\<close> and \<open>str\<close>.
\<close>

subsection \<open>Errors and library parameters\<close>

datatype py_error = ValueError | BadZipFile | AttributeError | UnicodeEncodeError | OverflowError

type_synonym bytes = "char list"

text \<open>What \<open>file_storage.stream.read()\<close> yields: bytes, or text for a text stream.\<close>

datatype stream_content = Bytes bytes | Text string

text \<open>
  The library functions the program calls. \<open>None\<close> stands for a raised exception:
  \<open>sha256_hex\<close> and \<open>hmac_sha512_hex\<close> raise when \<open>str.encode\<close> does,
  \<open>utf8_decode\<close> raises \<open>UnicodeDecodeError\<close>, \<open>zip_namelist\<close> is
  \<open>ZipFile(stream).namelist()\<close> and raises when the stream is no archive,
  \<open>zip_read\<close> is \<open>z.open(name).read()\<close>, and \<open>gzip_read_text\<close> is
  \<open>gzip.open(stream, 'rt', encoding='utf-8', errors='ignore').read()\<close>.
  \<open>fl\<close> rounds a real to the nearest double: an operation on Python floats is the exact
  operation followed by \<open>fl\<close>. Infinities and NaN are left out: the clock readings are
  taken to be of ordinary size, where the telemetry arithmetic does not overflow.
\<close>

record lib =
  sha256_hex :: "string \<Rightarrow> string option"
  hmac_sha512_hex :: "string \<Rightarrow> string \<Rightarrow> string option"
  utf8_decode :: "bytes \<Rightarrow> string option"
  zip_namelist :: "stream_content \<Rightarrow> string list option"
  zip_read :: "stream_content \<Rightarrow> string \<Rightarrow> bytes option"
  gzip_read_text :: "stream_content \<Rightarrow> string option"
  fl :: "real \<Rightarrow> real"

subsection \<open>Python string primitives\<close>

text \<open>\<open>str.isspace\<close> on code points below 256; \<open>str.strip()\<close> removes these.\<close>

definition is_space :: "char \<Rightarrow> bool" where
  "is_space c =
     (let n = (of_char c :: nat)
      in (9 \<le> n \<and> n \<le> 13) \<or> (28 \<le> n \<and> n \<le> 32) \<or> n = 133 \<or> n = 160)"

definition strip :: "string \<Rightarrow> string" where
  "strip s = rev (dropWhile is_space (rev (dropWhile is_space s)))"

text \<open>The line boundaries of \<open>str.splitlines\<close> below 256; \<open>\r\n\<close> counts once.\<close>

definition is_linebreak :: "char \<Rightarrow> bool" where
  "is_linebreak c =
     (let n = (of_char c :: nat)
      in (10 \<le> n \<and> n \<le> 13) \<or> (28 \<le> n \<and> n \<le> 30) \<or> n = 133)"

fun split_acc :: "string \<Rightarrow> string \<Rightarrow> string list" where
  "split_acc cur [] = (if cur = [] then [] else [rev cur])"
| "split_acc cur [c] = (if is_linebreak c then [rev cur] else [rev (c # cur)])"
| "split_acc cur (c # d # cs) =
     (if c = CHR 0x0D \<and> d = CHR 0x0A then rev cur # split_acc [] cs
      else if is_linebreak c then rev cur # split_acc [] (d # cs)
      else split_acc (c # cur) (d # cs))"

definition splitlines :: "string \<Rightarrow> string list" where
  "splitlines s = split_acc [] s"

definition lower_char :: "char \<Rightarrow> char" where
  "lower_char c =
     (let n = (of_char c :: nat)
      in if (65 \<le> n \<and> n \<le> 90) \<or> (192 \<le> n \<and> n \<le> 222 \<and> n \<noteq> 215)
         then char_of (n + 32) else c)"

definition lower :: "string \<Rightarrow> string" where
  "lower s = map lower_char s"

definition endswith :: "string \<Rightarrow> string \<Rightarrow> bool" where
  "endswith s suf = (length suf \<le> length s \<and> drop (length s - length suf) s = suf)"

subsection \<open>\<open>int(s, base)\<close> and \<open>str(n)\<close>\<close>

text \<open>
  Python's \<open>int(s, base)\<close> for base 10 and 16: whitespace around the literal, an optional
  sign, for base 16 an optional \<open>0x\<close> prefix, digits with single underscores between
  them; anything else raises \<open>ValueError\<close>. So does a literal of more than 4300 digits
  (leading zeros counted, underscores not) when the base is not a power of two.
\<close>

definition digit_value :: "char \<Rightarrow> nat" where
  "digit_value c =
     (let n = (of_char c :: nat)
      in if 48 \<le> n \<and> n \<le> 57 then n - 48
         else if 97 \<le> n \<and> n \<le> 122 then n - 87
         else if 65 \<le> n \<and> n \<le> 90 then n - 55
         else 37)"

definition int_space :: "char \<Rightarrow> bool" where
  "int_space c =
     (let n = (of_char c :: nat)
      in (9 \<le> n \<and> n \<le> 13) \<or> n = 32 \<or> n = 133 \<or> n = 160)"

fun scan_digits :: "nat \<Rightarrow> bool \<Rightarrow> int \<Rightarrow> string \<Rightarrow> (int \<times> string) option" where
  "scan_digits b us acc [] = (if us then None else Some (acc, []))"
| "scan_digits b us acc (c # cs) =
     (if c = CHR ''_'' then (if us then None else scan_digits b True acc cs)
      else if digit_value c < b
      then scan_digits b False (acc * int b + int (digit_value c)) cs
      else if us then None else Some (acc, c # cs))"

definition skip_prefix :: "nat \<Rightarrow> string \<Rightarrow> string" where
  "skip_prefix b s =
     (case s of
        c0 # c1 # r \<Rightarrow>
          if b = 16 \<and> c0 = CHR ''0'' \<and> (c1 = CHR ''x'' \<or> c1 = CHR ''X'')
          then (case r of u # r' \<Rightarrow> if u = CHR ''_'' then r' else r | [] \<Rightarrow> r)
          else s
      | _ \<Rightarrow> s)"

definition count_digits :: "string \<Rightarrow> nat" where
  "count_digits cs = length (filter (\<lambda>c. c \<noteq> CHR ''_'') cs)"

definition py_int :: "nat \<Rightarrow> string \<Rightarrow> py_error + int" where
  "py_int b s =
     (let s1 = dropWhile int_space s;
          (neg, s2) = (case s1 of
                         c # r \<Rightarrow> if c = CHR ''+'' then (False, r)
                                  else if c = CHR ''-'' then (True, r)
                                  else (False, s1)
                       | [] \<Rightarrow> (False, s1));
          s3 = skip_prefix b s2
      in case s3 of
           [] \<Rightarrow> Inl ValueError
         | c # r \<Rightarrow>
             if c = CHR ''_'' \<or> \<not> digit_value c < b then Inl ValueError
             else (case scan_digits b False 0 s3 of
                     None \<Rightarrow> Inl ValueError
                   | Some (v, rest) \<Rightarrow>
                       if b \<notin> {2, 4, 8, 16, 32} \<and>
                          4300 < count_digits (take (length s3 - length rest) s3)
                       then Inl ValueError
                       else if dropWhile int_space rest = [] then Inr (if neg then - v else v)
                       else Inl ValueError))"

function str_nat :: "nat \<Rightarrow> string" where
  "str_nat n =
     (if n < 10 then [''0123456789'' ! n]
      else str_nat (n div 10) @ [''0123456789'' ! (n mod 10)])"
  by pat_completeness auto
termination
  by (relation "measure id") auto

declare str_nat.simps [simp del]

definition str_int :: "int \<Rightarrow> string" where
  "str_int i = (if i < 0 then CHR ''-'' # str_nat (nat (- i)) else str_nat (nat i))"

text \<open>\<open>str(i)\<close>, as the f-string calls it: more than 4300 digits raise \<open>ValueError\<close>.\<close>

definition py_str :: "int \<Rightarrow> py_error + string" where
  "py_str i = (if 4300 < length (str_nat (nat \<bar>i\<bar>)) then Inl ValueError else Inr (str_int i))"

subsection \<open>Hash utilities\<close>

text \<open>
  \<open>extract_roll_from_hmac\<close>: the loop over \<open>roll\<close> and \<open>pos\<close>, returning both at exit.
  \<open>hmac_hex[pos:pos+5]\<close> is \<open>take 5 (drop pos h)\<close>; Python's \<open>%\<close> with a positive
  divisor is \<open>mod\<close> on \<open>int\<close>.
\<close>

function roll_loop :: "string \<Rightarrow> int \<Rightarrow> nat \<Rightarrow> py_error + (int \<times> nat)" where
  "roll_loop h roll pos =
     (if roll \<ge> 10000 \<and> pos + 5 \<le> length h
      then (case py_int 16 (take 5 (drop pos h)) of
              Inl e \<Rightarrow> Inl e
            | Inr r \<Rightarrow> roll_loop h r (pos + 5))
      else Inr (roll, pos))"
  by pat_completeness auto
termination
  by (relation "measure (\<lambda>(h, roll, pos). length h - pos)") auto

declare roll_loop.simps [simp del]

definition extract_roll_from_hmac :: "string \<Rightarrow> py_error + real" where
  "extract_roll_from_hmac h =
     (case roll_loop h 10001 0 of
        Inl e \<Rightarrow> Inl e
      | Inr (roll, pos) \<Rightarrow> Inr (real_of_int (roll mod 10000) / 100))"

definition calculate_dice_roll :: "lib \<Rightarrow> string \<Rightarrow> string \<Rightarrow> int \<Rightarrow> py_error + real" where
  "calculate_dice_roll L server_seed client_seed nonce =
     (case py_str nonce of
        Inl e \<Rightarrow> Inl e
      | Inr digits \<Rightarrow>
          (let msg = client_seed @ '':'' @ digits
           in case hmac_sha512_hex L server_seed msg of
                None \<Rightarrow> Inl UnicodeEncodeError
              | Some h \<Rightarrow> extract_roll_from_hmac h))"

subsection \<open>The outcome scan in the words of the specification\<close>

definition is_hex_digit :: "char \<Rightarrow> bool" where
  "is_hex_digit c = (c \<in> set ''0123456789abcdefABCDEF'')"

definition hex_string :: "string \<Rightarrow> bool" where
  "hex_string h = list_all is_hex_digit h"

definition hex_value :: "string \<Rightarrow> nat" where
  "hex_value s = foldl (\<lambda>a c. a * 16 + digit_value c) 0 s"

text \<open>The full 5-character chunks of a string, from its start.\<close>

function chunks5 :: "string \<Rightarrow> string list" where
  "chunks5 h = (if length h < 5 then [] else take 5 h # chunks5 (drop 5 h))"
  by pat_completeness auto
termination
  by (relation "measure length") auto

declare chunks5.simps [simp del]

definition chunk_values :: "string \<Rightarrow> nat list" where
  "chunk_values h = map hex_value (chunks5 h)"

text \<open>The first chunk value below 10000, or the last one when there is none.\<close>

definition spec_roll :: "nat list \<Rightarrow> nat" where
  "spec_roll vs = (case find (\<lambda>v. v < 10000) vs of Some v \<Rightarrow> v | None \<Rightarrow> last vs)"

fun scan_roll :: "int \<Rightarrow> int list \<Rightarrow> int" where
  "scan_roll r [] = r"
| "scan_roll r (v # vs) = (if r \<ge> 10000 then scan_roll v vs else r)"

subsection \<open>Candidate source reader\<close>

record file_storage =
  filename :: "string option"
  stream :: stream_content

definition latin1_decode :: "bytes \<Rightarrow> string" where
  "latin1_decode raw = raw"

text \<open>\<open>raw.decode("utf-8")\<close>, and \<open>raw.decode("latin-1")\<close> when that raises.\<close>

definition decode_text :: "lib \<Rightarrow> bytes \<Rightarrow> string" where
  "decode_text L raw = (case utf8_decode L raw of Some text \<Rightarrow> text | None \<Rightarrow> latin1_decode raw)"

text \<open>\<open>[ln.strip() for ln in lines if ln and ln.strip()]\<close>\<close>

definition clean_lines :: "string list \<Rightarrow> string list" where
  "clean_lines lines = map strip (filter (\<lambda>ln. ln \<noteq> [] \<and> strip ln \<noteq> []) lines)"

text \<open>
  The loop over \<open>z.namelist()\<close>, with the list \<open>lines\<close> as accumulator. A directory entry
  and an entry whose reading raises are skipped (\<open>continue\<close>).
\<close>

fun zip_lines :: "lib \<Rightarrow> stream_content \<Rightarrow> string list \<Rightarrow> string list \<Rightarrow> string list" where
  "zip_lines L z [] lines = lines"
| "zip_lines L z (name # names) lines =
     (if endswith name ''/'' then zip_lines L z names lines
      else (case zip_read L z name of
              None \<Rightarrow> zip_lines L z names lines
            | Some raw \<Rightarrow> zip_lines L z names (lines @ splitlines (decode_text L raw))))"

definition read_wordlist_from_file :: "lib \<Rightarrow> file_storage \<Rightarrow> py_error + string list" where
  "read_wordlist_from_file L file_storage =
     (let fname = lower (case filename file_storage of Some n \<Rightarrow> n | None \<Rightarrow> [])
      in if endswith fname ''.zip''
         then (case zip_namelist L (stream file_storage) of
                 None \<Rightarrow> Inl BadZipFile
               | Some names \<Rightarrow> Inr (clean_lines (zip_lines L (stream file_storage) names [])))
         else if endswith fname ''.gz''
         then (case gzip_read_text L (stream file_storage) of
                 Some text \<Rightarrow> Inr (clean_lines (splitlines text))
               | None \<Rightarrow>
                   (case stream file_storage of
                      Bytes raw \<Rightarrow> Inr (clean_lines (splitlines (decode_text L raw)))
                    | Text t \<Rightarrow> Inl AttributeError))
         else (case stream file_storage of
                 Bytes content \<Rightarrow> Inr (clean_lines (splitlines (decode_text L content)))
               | Text text \<Rightarrow> Inr (clean_lines (splitlines text))))"

subsection \<open>Jobs and the start-job route\<close>

datatype status = Queued | Running | Paused | Completed | Finished_no_match

text \<open>The job dictionary; the key \<open>done\<close> is the field \<open>done_flag\<close>.\<close>

record job =
  processed :: nat
  total :: nat
  done_flag :: bool
  paused :: bool
  speed_per_min :: real
  eta_seconds :: "int option"
  match :: "string option"
  roll :: "real option"
  start_time :: "real option"
  status :: status

type_synonym registry = "string \<rightharpoonup> job"

record request =
  form :: "string \<rightharpoonup> string"
  files :: "string \<rightharpoonup> file_storage"

text \<open>The arguments of the worker thread that \<open>start_process\<close> launches.\<close>

record task =
  job_id :: string
  wordlist_lines :: "string list"
  target_hash :: string
  client_seed :: string
  nonce :: int
  max_speed :: int

datatype body = Error_msg string | Job_id string

type_synonym response = "body \<times> nat"

definition form_get :: "request \<Rightarrow> string \<Rightarrow> string" where
  "form_get req k = (case form req k of Some v \<Rightarrow> v | None \<Rightarrow> [])"

definition new_job :: "nat \<Rightarrow> job" where
  "new_job n =
     \<lparr>processed = 0, total = n, done_flag = False, paused = False, speed_per_min = 0,
      eta_seconds = None, match = None, roll = None, start_time = None, status = Queued\<rparr>"

text \<open>
  \<open>start_process\<close>: the fresh identifier \<open>uuid4()\<close> is the argument \<open>jid\<close>. The result is
  the response, the registry \<open>jobs\<close> afterwards and the worker launched, if any; \<open>Inl\<close> is
  an exception that escapes the route.
\<close>

definition start_process ::
  "lib \<Rightarrow> string \<Rightarrow> request \<Rightarrow> registry \<Rightarrow> py_error + (response \<times> registry \<times> task option)" where
  "start_process L jid req jobs =
     (let hashedSeed = strip (form_get req ''hashedSeed'');
          clientSeed = strip (form_get req ''clientSeed'');
          nonce_str = strip (form_get req ''nonce'');
          speed_str = strip (form_get req ''speed'')
      in if hashedSeed = [] \<or> clientSeed = [] \<or> nonce_str = []
         then Inr ((Error_msg ''missing required fields (hashedSeed, clientSeed, nonce)'', 400),
                   jobs, None)
         else (case py_int 10 nonce_str of
                 Inl e \<Rightarrow> Inr ((Error_msg ''nonce must be an integer'', 400), jobs, None)
               | Inr n \<Rightarrow>
                  (let speed = (if speed_str \<noteq> []
                                then (case py_int 10 speed_str of Inr v \<Rightarrow> v | Inl e \<Rightarrow> 20000)
                                else 20000);
                       source =
                         (case files req ''wordlist'' of
                            Some file \<Rightarrow> map_sum id Some (read_wordlist_from_file L file)
                          | None \<Rightarrow>
                              (case form req ''wordlistText'' of
                                 Some text \<Rightarrow>
                                   Inr (Some (map strip (filter (\<lambda>ln. strip ln \<noteq> []) (splitlines text))))
                               | None \<Rightarrow> Inr None))
                   in case source of
                        Inl e \<Rightarrow> Inl e
                      | Inr None \<Rightarrow> Inr ((Error_msg ''no wordlist provided'', 400), jobs, None)
                      | Inr (Some ws) \<Rightarrow>
                          Inr ((Job_id jid, 200),
                               jobs(jid \<mapsto> new_job (length ws)),
                               Some \<lparr>job_id = jid, wordlist_lines = ws, target_hash = hashedSeed,
                                     client_seed = clientSeed, nonce = n, max_speed = speed\<rparr>))))"

subsection \<open>Background worker\<close>

text \<open>
  The wall clock is the parameter \<open>now\<close>: \<open>now 0\<close> is the reading at the start of
  \<open>process_job\<close> and \<open>now idx\<close> the reading in the iteration with index \<open>idx\<close>.
\<close>

text \<open>\<open>int(x)\<close> of a float: truncation towards zero.\<close>

definition py_trunc :: "real \<Rightarrow> int" where
  "py_trunc x = (if x \<ge> 0 then \<lfloor>x\<rfloor> else \<lceil>x\<rceil>)"

text \<open>The \<open>try\<close> around \<open>sha256_hex\<close>: a candidate that cannot be hashed gets the digest \<open>""\<close>.\<close>

definition hashed_candidate :: "lib \<Rightarrow> string \<Rightarrow> string" where
  "hashed_candidate L seed = (case sha256_hex L seed of Some h \<Rightarrow> h | None \<Rightarrow> [])"

text \<open>\<open>hashed_candidate.lower() == target_hash.lower()\<close>\<close>

definition is_match :: "lib \<Rightarrow> string \<Rightarrow> string \<Rightarrow> bool" where
  "is_match L target seed = (lower (hashed_candidate L seed) = lower target)"

text \<open>The assignments at the head of \<open>process_job\<close>.\<close>

definition init_job :: "(nat \<Rightarrow> real) \<Rightarrow> nat \<Rightarrow> job \<Rightarrow> job" where
  "init_job now n j =
     j\<lparr>start_time := Some (now 0), total := n, processed := 0, done_flag := False,
       match := None, roll := None, speed_per_min := 0, eta_seconds := None\<rparr>"

text \<open>
  \<open>job['processed'] = idx\<close> and the speed and ETA updates that follow it. The field
  \<open>start_time\<close> was written by \<open>init_job\<close> and has no other writer.
\<close>

definition update_progress :: "lib \<Rightarrow> (nat \<Rightarrow> real) \<Rightarrow> nat \<Rightarrow> nat \<Rightarrow> job \<Rightarrow> job" where
  "update_progress L now n idx j =
     (let j1 = j\<lparr>processed := idx\<rparr>;
          elapsed = fl L (now idx - (case start_time j1 of Some t \<Rightarrow> t | None \<Rightarrow> 0));
          j2 = (if elapsed > 0
                then j1\<lparr>speed_per_min := fl L (fl L (real (processed j1) / elapsed) * 60)\<rparr>
                else j1)
      in if speed_per_min j2 > 0
         then j2\<lparr>eta_seconds :=
                   Some (py_trunc
                     (fl L (fl L (real_of_int (int n - int (processed j2)) / speed_per_min j2) * 60)))\<rparr>
         else j2\<lparr>eta_seconds := None\<rparr>)"

text \<open>
  The throttle \<open>if max_speed and max_speed > 0: time.sleep(60.0 / float(max_speed))\<close>.
  \<open>float(i)\<close> raises \<open>OverflowError\<close> when \<open>i\<close> rounds beyond the largest double, that
  is from \<open>2^1024 - 2^970\<close> on; otherwise the quotient is at most 60 and the sleep changes
  nothing but the clock.
\<close>

definition float_raises :: "int \<Rightarrow> bool" where
  "float_raises i = (2 ^ 1024 - 2 ^ 970 \<le> \<bar>i\<bar>)"

definition throttle :: "int \<Rightarrow> py_error option" where
  "throttle ms = (if ms \<noteq> 0 \<and> ms > 0 \<and> float_raises ms then Some OverflowError else None)"

definition found :: "string \<Rightarrow> real \<Rightarrow> job \<Rightarrow> job" where
  "found candidate r j = j\<lparr>match := Some candidate, roll := Some r, done_flag := True, status := Completed\<rparr>"

definition finish_no_match :: "job \<Rightarrow> job" where
  "finish_no_match j =
     j\<lparr>done_flag := True, status := Finished_no_match, match := None, roll := None,
       eta_seconds := Some 0\<rparr>"

text \<open>
  How a call of \<open>process_job\<close> that runs alone ends: it returns, an exception escapes it, or it
  stays in the wait \<open>while job['paused']\<close> for ever, since nothing else clears the flag.
\<close>

datatype outcome = Returned job | Raised py_error job | Blocked job

fun job_loop :: "lib \<Rightarrow> (nat \<Rightarrow> real) \<Rightarrow> task \<Rightarrow> nat \<Rightarrow> string list \<Rightarrow> job \<Rightarrow> outcome" where
  "job_loop L now T idx [] j = Returned (finish_no_match j)"
| "job_loop L now T idx (seed # rest) j =
     (if paused j then Blocked j
      else (let j' = update_progress L now (length (wordlist_lines T)) (Suc idx) j
            in if is_match L (target_hash T) seed
               then (case calculate_dice_roll L seed (client_seed T) (nonce T) of
                       Inl e \<Rightarrow> Raised e j'
                     | Inr r \<Rightarrow> Returned (found seed r j'))
               else (case throttle (max_speed T) of
                       Some e \<Rightarrow> Raised e j'
                     | None \<Rightarrow> job_loop L now T (Suc idx) rest j')))"

definition process_job :: "lib \<Rightarrow> (nat \<Rightarrow> real) \<Rightarrow> task \<Rightarrow> job \<Rightarrow> outcome" where
  "process_job L now T j =
     job_loop L now T 0 (wordlist_lines T) (init_job now (length (wordlist_lines T)) j)"

subsection \<open>The worker interleaved with pause and resume\<close>

text \<open>
  One job, its lock, and the program point of its worker thread. \<open>Head idx rest\<close> is the
  \<open>for\<close> statement after \<open>idx\<close> candidates, \<open>Waiting\<close> the loop \<open>while job['paused']\<close>
  inside \<open>with job['lock']\<close>, \<open>Body\<close> the iteration after the lock is released, up to
  the throttle; the other points are the writes of the match branch and of the code after the
  loop, and \<open>Crashed\<close> is the thread ended by an exception. The step at
  \<open>Head\<close> enters \<open>with job['lock']\<close>, which needs the lock free, tests the flag and, when
  it is clear, leaves the block at once; when it is set, the worker stays inside the block, with
  the lock, until it sees the flag clear. Consecutive writes to fields that only the worker
  writes form one step; each write of \<open>status\<close>, which the routes write too, is a step of
  its own. The jobs of the registry share nothing: each has its own dictionary, lock and worker
  thread, so the system of one job is described.
\<close>

datatype pc =
    Start
  | Head nat "string list"
  | Waiting nat string "string list"
  | Body nat string "string list"
  | Found string
  | Set_completed
  | Exhausted
  | Set_no_match
  | Clear_result
  | Exited
  | Crashed py_error

text \<open>Who holds \<open>job['lock']\<close>; for a route, whether its first write is done.\<close>

datatype holder = Worker | Pause_request bool | Resume_request bool

record sys =
  the_job :: job
  lock :: "holder option"
  pc :: pc

definition initial_sys :: "task \<Rightarrow> sys" where
  "initial_sys T = \<lparr>the_job = new_job (length (wordlist_lines T)), lock = None, pc = Start\<rparr>"

text \<open>One step of the worker thread; \<open>None\<close> when it cannot move.\<close>

definition worker_step :: "lib \<Rightarrow> (nat \<Rightarrow> real) \<Rightarrow> task \<Rightarrow> sys \<Rightarrow> sys option" where
  "worker_step L now T s =
     (case pc s of
        Start \<Rightarrow>
          Some (s\<lparr>the_job := init_job now (length (wordlist_lines T)) (the_job s),
                  pc := Head 0 (wordlist_lines T)\<rparr>)
      | Head idx [] \<Rightarrow> Some (s\<lparr>pc := Exhausted\<rparr>)
      | Head idx (seed # rest) \<Rightarrow>
          (if lock s \<noteq> None then None
           else if paused (the_job s) then Some (s\<lparr>lock := Some Worker, pc := Waiting idx seed rest\<rparr>)
           else Some (s\<lparr>pc := Body idx seed rest\<rparr>))
      | Waiting idx seed rest \<Rightarrow>
          (if paused (the_job s) then Some s
           else Some (s\<lparr>lock := None, pc := Body idx seed rest\<rparr>))
      | Body idx seed rest \<Rightarrow>
          (let j' = update_progress L now (length (wordlist_lines T)) (Suc idx) (the_job s)
           in if is_match L (target_hash T) seed
              then Some (s\<lparr>the_job := j', pc := Found seed\<rparr>)
              else (case throttle (max_speed T) of
                      Some e \<Rightarrow> Some (s\<lparr>the_job := j', pc := Crashed e\<rparr>)
                    | None \<Rightarrow> Some (s\<lparr>the_job := j', pc := Head (Suc idx) rest\<rparr>)))
      | Found seed \<Rightarrow>
          (case calculate_dice_roll L seed (client_seed T) (nonce T) of
             Inl e \<Rightarrow> Some (s\<lparr>pc := Crashed e\<rparr>)
           | Inr r \<Rightarrow>
               Some (s\<lparr>the_job := (the_job s)\<lparr>match := Some seed, roll := Some r, done_flag := True\<rparr>,
                       pc := Set_completed\<rparr>))
      | Set_completed \<Rightarrow> Some (s\<lparr>the_job := (the_job s)\<lparr>status := Completed\<rparr>, pc := Exited\<rparr>)
      | Exhausted \<Rightarrow> Some (s\<lparr>the_job := (the_job s)\<lparr>done_flag := True\<rparr>, pc := Set_no_match\<rparr>)
      | Set_no_match \<Rightarrow>
          Some (s\<lparr>the_job := (the_job s)\<lparr>status := Finished_no_match\<rparr>, pc := Clear_result\<rparr>)
      | Clear_result \<Rightarrow>
          Some (s\<lparr>the_job := (the_job s)\<lparr>match := None, roll := None, eta_seconds := Some 0\<rparr>,
                  pc := Exited\<rparr>)
      | Exited \<Rightarrow> None
      | Crashed e \<Rightarrow> None)"

text \<open>
  The routes \<open>pause_job\<close> and \<open>resume_job\<close> on an existing job, in three steps each:
  entering \<open>with job['lock']\<close> (possible only when the lock is free), the write of
  \<open>paused\<close>, and the write of \<open>status\<close> with the release of the lock.
\<close>

definition pause_job :: "sys \<Rightarrow> sys option" where
  "pause_job s =
     (case lock s of
        None \<Rightarrow> Some (s\<lparr>lock := Some (Pause_request False)\<rparr>)
      | Some (Pause_request False) \<Rightarrow>
          Some (s\<lparr>the_job := (the_job s)\<lparr>paused := True\<rparr>, lock := Some (Pause_request True)\<rparr>)
      | Some (Pause_request True) \<Rightarrow>
          Some (s\<lparr>the_job := (the_job s)\<lparr>status := Paused\<rparr>, lock := None\<rparr>)
      | Some _ \<Rightarrow> None)"

definition resume_job :: "sys \<Rightarrow> sys option" where
  "resume_job s =
     (case lock s of
        None \<Rightarrow> Some (s\<lparr>lock := Some (Resume_request False)\<rparr>)
      | Some (Resume_request False) \<Rightarrow>
          Some (s\<lparr>the_job := (the_job s)\<lparr>paused := False\<rparr>, lock := Some (Resume_request True)\<rparr>)
      | Some (Resume_request True) \<Rightarrow>
          Some (s\<lparr>the_job := (the_job s)\<lparr>status := Running\<rparr>, lock := None\<rparr>)
      | Some _ \<Rightarrow> None)"

datatype action = Work | Pause_op | Resume_op

fun exec :: "lib \<Rightarrow> (nat \<Rightarrow> real) \<Rightarrow> task \<Rightarrow> action \<Rightarrow> sys \<Rightarrow> sys option" where
  "exec L now T Work s = worker_step L now T s"
| "exec L now T Pause_op s = pause_job s"
| "exec L now T Resume_op s = resume_job s"

text \<open>An interleaving is a list of actions; it is \<open>None\<close> when some action cannot move.\<close>

fun run_schedule :: "lib \<Rightarrow> (nat \<Rightarrow> real) \<Rightarrow> task \<Rightarrow> action list \<Rightarrow> sys \<Rightarrow> sys option" where
  "run_schedule L now T [] s = Some s"
| "run_schedule L now T (a # as) s =
     (case exec L now T a s of None \<Rightarrow> None | Some s' \<Rightarrow> run_schedule L now T as s')"

subsection \<open>The archive reader in the words of the specification\<close>

text \<open>
  The lines one listed entry contributes: none for a directory entry and for an entry that
  cannot be read, otherwise the lines of its text, decoded as UTF-8 with Latin-1 as fallback.
\<close>

definition entry_lines :: "lib \<Rightarrow> stream_content \<Rightarrow> string \<Rightarrow> string list" where
  "entry_lines L z name =
     (if endswith name ''/'' then []
      else (case zip_read L z name of
              None \<Rightarrow> []
            | Some raw \<Rightarrow> splitlines (case utf8_decode L raw of Some t \<Rightarrow> t | None \<Rightarrow> raw)))"


text \<open>A required form field counts as missing when it is absent or blank.\<close>

definition missing_field :: "request \<Rightarrow> string \<Rightarrow> bool" where
  "missing_field req k = (case form req k of None \<Rightarrow> True | Some v \<Rightarrow> strip v = [])"

text \<open>Lines that hold no candidate: each is empty once trimmed.\<close>

definition all_blank :: "string list \<Rightarrow> bool" where
  "all_blank ls = list_all (\<lambda>ln. strip ln = []) ls"

text \<open>
  An upload that opens and holds no candidate line, by the container its name selects: a zip
  archive must open, and all lines of its readable entries are blank; a gzip upload is read as
  decompressed text or, when that fails, as its raw bytes; anything else is read as text.
\<close>

definition opens_without_lines :: "lib \<Rightarrow> file_storage \<Rightarrow> bool" where
  "opens_without_lines L f =
     (let fname = lower (case filename f of Some n \<Rightarrow> n | None \<Rightarrow> [])
      in if endswith fname ''.zip''
         then (case zip_namelist L (stream f) of
                 None \<Rightarrow> False
               | Some names \<Rightarrow> all_blank (concat (map (entry_lines L (stream f)) names)))
         else if endswith fname ''.gz''
         then (case gzip_read_text L (stream f) of
                 Some t \<Rightarrow> all_blank (splitlines t)
               | None \<Rightarrow>
                   (case stream f of
                      Bytes raw \<Rightarrow>
                        all_blank (splitlines (case utf8_decode L raw of Some t \<Rightarrow> t | None \<Rightarrow> raw))
                    | Text t \<Rightarrow> False))
         else (case stream f of
                 Bytes raw \<Rightarrow>
                   all_blank (splitlines (case utf8_decode L raw of Some t \<Rightarrow> t | None \<Rightarrow> raw))
               | Text t \<Rightarrow> all_blank (splitlines t)))"

subsection \<open>A small concrete instance\<close>

text \<open>
  Stand-ins for the library on which the definitions can be evaluated: the digest of a string
  is its reversal, every keyed digest is \<open>fffff0270f\<close>, bytes decode to themselves, the
  archive lists two text entries, a directory and an entry that cannot be read, and float
  results are taken exactly.
\<close>

definition demo_lib :: lib where
  "demo_lib =
     \<lparr>sha256_hex = (\<lambda>s. Some (rev s)),
      hmac_sha512_hex = (\<lambda>k m. Some ''fffff0270f''),
      utf8_decode = (\<lambda>b. Some b),
      zip_namelist = (\<lambda>z. Some [''a.txt'', ''dir/'', ''bad.bin'', ''b.txt'']),
      zip_read = (\<lambda>z name.
         if name = ''a.txt'' then Some ('' one '' @ [CHR 0x0A, CHR 0x0A] @ ''two'' @ [CHR 0x0D, CHR 0x0A] @ ''three'')
         else if name = ''b.txt''
         then Some (''w'' @ [CHR 0x0A] @ ''x '' @ [CHR 0x0A] @ '' '' @ [CHR 0x0A] @ ''y'' @ [CHR 0x0A] @ ''z'' @ [CHR 0x0A])
         else None),
      gzip_read_text = (\<lambda>z. None),
      fl = (\<lambda>x. x)\<rparr>"

definition demo_task :: task where
  "demo_task =
     \<lparr>job_id = ''id1'', wordlist_lines = [''a'', ''b''], target_hash = ''B'',
      client_seed = ''cs'', nonce = 7, max_speed = 20000\<rparr>"

definition demo_clock :: "nat \<Rightarrow> real" where
  "demo_clock n = real n"

text \<open>Requests and an empty registry for the routes.\<close>

definition blank_request :: request where
  "blank_request =
     \<lparr>form = [''hashedSeed'' \<mapsto> ''B'', ''clientSeed'' \<mapsto> ''cs'', ''nonce'' \<mapsto> ''7''],
      files = [''wordlist'' \<mapsto> \<lparr>filename = Some ''w.txt'', stream = Bytes []\<rparr>]\<rparr>"

definition bad_nonce_request :: request where
  "bad_nonce_request =
     \<lparr>form = [''hashedSeed'' \<mapsto> ''B'', ''clientSeed'' \<mapsto> ''cs'', ''nonce'' \<mapsto> ''x1'',
              ''wordlistText'' \<mapsto> ''a''],
      files = Map.empty\<rparr>"

definition no_jobs :: registry where
  "no_jobs = Map.empty"

text \<open>An upload named as an archive, for a library whose \<open>zipfile\<close> cannot open it.\<close>

definition closed_lib :: lib where
  "closed_lib = demo_lib\<lparr>zip_namelist := (\<lambda>z. None)\<rparr>"

definition broken_zip_request :: request where
  "broken_zip_request =
     \<lparr>form = [''hashedSeed'' \<mapsto> ''B'', ''clientSeed'' \<mapsto> ''cs'', ''nonce'' \<mapsto> ''7''],
      files = [''wordlist'' \<mapsto> \<lparr>filename = Some ''w.zip'', stream = Bytes ''junk''\<rparr>]\<rparr>"

definition other_task :: task where
  "other_task = demo_task\<lparr>target_hash := ''zz''\<rparr>"

subsection \<open>An invariant of the interleaved system\<close>

text \<open>
  What holds of the job and the lock at each program point of the worker, in every state
  reached from \<open>initial_sys\<close>: the counters agree with the position in the list, the worker
  holds the lock exactly while it waits, and it waits only with the pause flag set.
\<close>

definition worker_inv :: "task \<Rightarrow> sys \<Rightarrow> bool" where
  "worker_inv T s =
     (total (the_job s) = length (wordlist_lines T) \<and>
      processed (the_job s) \<le> length (wordlist_lines T) \<and>
      (case pc s of
         Start \<Rightarrow> processed (the_job s) = 0 \<and> lock s \<noteq> Some Worker
       | Head idx rest \<Rightarrow>
           processed (the_job s) = idx \<and> idx + length rest = length (wordlist_lines T) \<and>
           lock s \<noteq> Some Worker
       | Waiting idx seed rest \<Rightarrow>
           processed (the_job s) = idx \<and> Suc (idx + length rest) = length (wordlist_lines T) \<and>
           lock s = Some Worker \<and> paused (the_job s)
       | Body idx seed rest \<Rightarrow>
           processed (the_job s) = idx \<and> Suc (idx + length rest) = length (wordlist_lines T) \<and>
           lock s \<noteq> Some Worker
       | Found seed \<Rightarrow> lock s \<noteq> Some Worker
       | Set_completed \<Rightarrow> done_flag (the_job s) \<and> lock s \<noteq> Some Worker
       | Exhausted \<Rightarrow> lock s \<noteq> Some Worker
       | Set_no_match \<Rightarrow> done_flag (the_job s) \<and> lock s \<noteq> Some Worker
       | Clear_result \<Rightarrow> done_flag (the_job s) \<and> lock s \<noteq> Some Worker
       | Exited \<Rightarrow> done_flag (the_job s) \<and> lock s \<noteq> Some Worker
       | Crashed e \<Rightarrow> lock s \<noteq> Some Worker))"

definition empty_task :: task where
  "empty_task = demo_task\<lparr>wordlist_lines := []\<rparr>"

text \<open>The worker, moving alone, gets from one state to another.\<close>

definition worker_reaches :: "lib \<Rightarrow> (nat \<Rightarrow> real) \<Rightarrow> task \<Rightarrow> sys \<Rightarrow> sys \<Rightarrow> bool" where
  "worker_reaches L now T s s' = (\<exists>k. run_schedule L now T (replicate k Work) s = Some s')"

subsection \<open>Where the scan through the list stands\<close>









section \<open>Properties\<close>

subsection \<open>Parsing hexadecimal chunks\<close>

lemma hex_digit_props:
  assumes "is_hex_digit c"
  shows "digit_value c < 16" "c \<noteq> CHR ''_''" "\<not> int_space c" "c \<noteq> CHR ''+''"
    "c \<noteq> CHR ''-''" "c \<noteq> CHR ''x''" "c \<noteq> CHR ''X''"
  using assms by (auto simp: is_hex_digit_def digit_value_def int_space_def)

lemma scan_digits_hex:
  "list_all is_hex_digit cs \<Longrightarrow>
   scan_digits 16 False acc cs = Some (foldl (\<lambda>a c. a * 16 + int (digit_value c)) acc cs, [])"
  by (induction cs arbitrary: acc) (auto simp: hex_digit_props)

lemma foldl_hex_int:
  "foldl (\<lambda>a c. a * 16 + int (digit_value c)) (int n) cs =
   int (foldl (\<lambda>a c. a * 16 + digit_value c) n cs)"
proof (induction cs arbitrary: n)
  case Nil
  then show ?case by simp
next
  case (Cons c cs)
  show ?case using Cons.IH[of "n * 16 + digit_value c"] by simp
qed

lemma skip_prefix_hex: "list_all is_hex_digit s \<Longrightarrow> skip_prefix 16 s = s"
  by (auto simp: skip_prefix_def is_hex_digit_def split: list.splits)

lemma py_int_hex:
  assumes "cs \<noteq> []" "list_all is_hex_digit cs"
  shows "py_int 16 cs = Inr (int (hex_value cs))"
proof -
  obtain c r where cs: "cs = c # r" using assms(1) by (cases cs) auto
  have c: "is_hex_digit c" using assms(2) cs by simp
  have dw: "dropWhile int_space cs = cs" using cs c by (simp add: hex_digit_props)
  have sc: "scan_digits 16 False 0 cs = Some (int (hex_value cs), [])"
    using scan_digits_hex[OF assms(2), of 0] foldl_hex_int[of 0 cs] by (simp add: hex_value_def)
  show ?thesis
    unfolding py_int_def dw
    using c sc skip_prefix_hex[OF assms(2)] by (simp add: cs hex_digit_props)
qed

subsection \<open>The roll loop against the chunk scan\<close>

lemma scan_roll_small: "r < 10000 \<Longrightarrow> scan_roll r vs = r"
  by (cases vs) auto

lemma chunks5_drop:
  "pos + 5 \<le> length h \<Longrightarrow>
   chunks5 (drop pos h) = take 5 (drop pos h) # chunks5 (drop (pos + 5) h)"
  by (subst chunks5.simps) (simp add: add.commute)

lemma chunks5_short: "\<not> pos + 5 \<le> length h \<Longrightarrow> chunks5 (drop pos h) = []"
  by (subst chunks5.simps) auto

lemma roll_loop_scan:
  "hex_string h \<Longrightarrow>
   \<exists>p. roll_loop h rl0 pos = Inr (scan_roll rl0 (map int (chunk_values (drop pos h))), p)"
proof (induction h rl0 pos rule: roll_loop.induct)
  case (1 h rl0 pos)
  show ?case
  proof (cases "rl0 \<ge> 10000 \<and> pos + 5 \<le> length h")
    case True
    let ?c = "take 5 (drop pos h)"
    have hexc: "list_all is_hex_digit ?c"
      using "1.prems" unfolding hex_string_def list_all_iff
      by (meson in_set_dropD in_set_takeD)
    have ne: "?c \<noteq> []" using True by auto
    have pi: "py_int 16 ?c = Inr (int (hex_value ?c))" by (rule py_int_hex[OF ne hexc])
    from "1.IH"[OF True pi "1.prems"] obtain p where
      p: "roll_loop h (int (hex_value ?c)) (pos + 5) =
          Inr (scan_roll (int (hex_value ?c)) (map int (chunk_values (drop (pos + 5) h))), p)"
      by blast
    have "roll_loop h rl0 pos = roll_loop h (int (hex_value ?c)) (pos + 5)"
      by (subst roll_loop.simps) (use True pi in simp)
    moreover have "scan_roll rl0 (map int (chunk_values (drop pos h))) =
      scan_roll (int (hex_value ?c)) (map int (chunk_values (drop (pos + 5) h)))"
      using True by (simp add: chunk_values_def chunks5_drop)
    ultimately show ?thesis using p by auto
  next
    case False
    have ret: "roll_loop h rl0 pos = Inr (rl0, pos)"
      by (subst roll_loop.simps) (use False in auto)
    have "scan_roll rl0 (map int (chunk_values (drop pos h))) = rl0"
    proof (cases "rl0 < 10000")
      case True
      then show ?thesis by (rule scan_roll_small)
    next
      case False
      with \<open>\<not> (rl0 \<ge> 10000 \<and> pos + 5 \<le> length h)\<close> have "\<not> pos + 5 \<le> length h" by auto
      then show ?thesis by (simp add: chunk_values_def chunks5_short)
    qed
    then show ?thesis using ret by auto
  qed
qed

lemma scan_roll_spec:
  "r \<ge> 10000 \<Longrightarrow> vs \<noteq> [] \<Longrightarrow> scan_roll r (map int vs) = int (spec_roll vs)"
proof (induction vs arbitrary: r)
  case Nil
  then show ?case by simp
next
  case (Cons v vs)
  show ?case
  proof (cases "v < 10000")
    case True
    then show ?thesis using Cons.prems by (simp add: spec_roll_def scan_roll_small)
  next
    case False
    show ?thesis
    proof (cases vs)
      case Nil
      then show ?thesis using False Cons.prems by (simp add: spec_roll_def)
    next
      case (Cons w ws)
      then have "scan_roll (int v) (map int vs) = int (spec_roll vs)"
        using Cons.IH[of "int v"] False by simp
      then show ?thesis
        using False Cons.prems Cons by (simp add: spec_roll_def split: option.splits)
    qed
  qed
qed

lemma extract_roll_hex:
  assumes "hex_string h"
  shows "\<exists>p. roll_loop h 10001 0 = Inr (scan_roll 10001 (map int (chunk_values h)), p)"
  using roll_loop_scan[OF assms, of 10001 0] by simp

lemma roll_loop_short: "length h < 5 \<Longrightarrow> roll_loop h 10001 0 = Inr (10001, 0)"
  by (subst roll_loop.simps) simp

subsection \<open>Claims about the outcome extraction\<close>

text \<open>
  Claim C10. For every input shorter than 5 characters, \<open>extract_roll_from_hmac\<close> reads no
  chunk: the loop exits at once with the sentinel 10001 and position 0, nothing is raised,
  and the result is \<open>(10001 mod 10000) / 100 = 0.01\<close>.
\<close>

theorem extract_roll_short_input:
  "length h < 5 \<Longrightarrow>
   roll_loop h 10001 0 = Inr (10001, 0) \<and> extract_roll_from_hmac h = Inr (1 / 100)"
  by (simp add: roll_loop_short extract_roll_from_hmac_def)

theorem extract_roll_short_input_witness:
  "length ''abcd'' < 5 \<and> roll_loop ''abcd'' 10001 0 = Inr (10001, 0)
   \<and> extract_roll_from_hmac ''abcd'' = Inr (1 / 100)"
  using extract_roll_short_input [of "''abcd''"] by simp

text \<open>
  Claim C1, as stated, at the input \<open>abc\<close>: the input has no full 5-character chunk, so
  there is neither a first chunk below 10000 nor a last chunk read, and yet a value is returned.
\<close>

theorem extract_roll_no_chunk_counterexample:
  "chunks5 ''abc'' = [] \<and> extract_roll_from_hmac ''abc'' = Inr (1 / 100)"
  by (simp add: chunks5.simps roll_loop.simps extract_roll_from_hmac_def)

text \<open>
  Claim C1, amended. For every hex string the result is a value in \<open>[0, 100)\<close>; for every hex
  string with at least one full chunk (length at least 5) the roll is the first 5-character
  chunk whose value is below 10000, or the last full chunk when there is none, and the result
  is \<open>(roll mod 10000) / 100\<close>.
\<close>

theorem extract_roll_chunk_scan:
  assumes "hex_string h"
  shows "(\<exists>x. extract_roll_from_hmac h = Inr x \<and> 0 \<le> x \<and> x < 100) \<and>
         (5 \<le> length h \<longrightarrow>
            extract_roll_from_hmac h = Inr (real (spec_roll (chunk_values h) mod 10000) / 100))"
proof -
  from extract_roll_hex[OF assms] obtain p where
    p: "roll_loop h 10001 0 = Inr (scan_roll 10001 (map int (chunk_values h)), p)" by auto
  let ?r = "scan_roll 10001 (map int (chunk_values h))"
  have ex: "extract_roll_from_hmac h = Inr (real_of_int (?r mod 10000) / 100)"
    using p by (simp add: extract_roll_from_hmac_def)
  have "0 \<le> ?r mod 10000" "?r mod 10000 < 10000" by simp_all
  then have rng: "0 \<le> real_of_int (?r mod 10000) / 100 \<and> real_of_int (?r mod 10000) / 100 < 100"
    by simp
  have two: "extract_roll_from_hmac h = Inr (real (spec_roll (chunk_values h) mod 10000) / 100)"
    if len: "5 \<le> length h"
  proof -
    have "chunks5 h \<noteq> []"
      by (subst chunks5.simps) (use len in simp)
    then have ne: "chunk_values h \<noteq> []"
      by (simp add: chunk_values_def)
    have "?r = int (spec_roll (chunk_values h))"
      by (rule scan_roll_spec[OF _ ne]) simp
    moreover have "int (spec_roll (chunk_values h)) mod 10000 = int (spec_roll (chunk_values h) mod 10000)"
      by (simp add: zmod_int)
    ultimately show ?thesis using ex by simp
  qed
  show ?thesis using ex rng two by blast
qed

theorem extract_roll_chunk_scan_witness:
  "hex_string ''fffff0270f12345'' \<and> 5 \<le> length ''fffff0270f12345'' \<and>
   chunk_values ''fffff0270f12345'' = [1048575, 9999, 74565] \<and>
   extract_roll_from_hmac ''fffff0270f12345'' = Inr (9999 / 100)"
proof -
  have h: "hex_string ''fffff0270f12345''"
    by (simp add: hex_string_def is_hex_digit_def)
  have cv: "chunk_values ''fffff0270f12345'' = [1048575, 9999, 74565]"
    by (simp add: chunk_values_def chunks5.simps hex_value_def digit_value_def)
  show ?thesis
    using h cv extract_roll_chunk_scan [OF h] by (simp add: spec_roll_def)
qed

subsection \<open>The candidate source reader\<close>

lemma strip_Nil: "strip [] = []"
  by (simp add: strip_def)






lemma zip_lines_concat:
  "zip_lines L z names acc = acc @ concat (map (entry_lines L z) names)"
  by (induction names arbitrary: acc)
     (auto simp: entry_lines_def decode_text_def latin1_decode_def split: option.splits)




subsection \<open>The start-job route\<close>

lemma missing_field_strip: "missing_field req k \<longleftrightarrow> strip (form_get req k) = []"
  by (simp add: missing_field_def form_get_def strip_Nil split: option.splits)

lemma py_int_Nil: "py_int b [] = Inl ValueError"
  by (simp add: py_int_def skip_prefix_def)

text \<open>
  Claim C7. When the target digest, the client seed or the nonce is missing, or the nonce is
  not an integer, or neither a file upload nor inline text is given, \<open>start_process\<close> answers
  with status 400, leaves the registry as it was and launches no worker.
\<close>

theorem start_process_rejects:
  assumes "missing_field req ''hashedSeed'' \<or> missing_field req ''clientSeed''
           \<or> missing_field req ''nonce''
           \<or> (\<exists>e. py_int 10 (strip (form_get req ''nonce'')) = Inl e)
           \<or> (files req ''wordlist'' = None \<and> form req ''wordlistText'' = None)"
  shows "\<exists>msg. start_process L jid req jobs = Inr ((Error_msg msg, 400), jobs, None)"
proof (cases "strip (form_get req ''hashedSeed'') = [] \<or> strip (form_get req ''clientSeed'') = []
              \<or> strip (form_get req ''nonce'') = []")
  case True
  then show ?thesis by (auto simp: start_process_def)
next
  case False
  note present = False
  show ?thesis
  proof (cases "py_int 10 (strip (form_get req ''nonce''))")
    case (Inl e)
    then show ?thesis using present by (simp add: start_process_def Let_def)
  next
    case (Inr n)
    with assms present
    have src: "files req ''wordlist'' = None" "form req ''wordlistText'' = None"
      by (auto simp: missing_field_strip)
    show ?thesis using present Inr src by (simp add: start_process_def Let_def)
  qed
qed

theorem start_process_rejects_witness:
  "(\<exists>e. py_int 10 (strip (form_get bad_nonce_request ''nonce'')) = Inl e) \<and>
   (\<exists>msg. start_process demo_lib ''id1'' bad_nonce_request no_jobs
            = Inr ((Error_msg msg, 400), no_jobs, None))"
proof -
  have "strip (form_get bad_nonce_request ''nonce'') = ''x1''"
    by (simp add: bad_nonce_request_def form_get_def strip_def is_space_def)
  moreover have "py_int 10 ''x1'' = Inl ValueError"
    by (simp add: py_int_def skip_prefix_def int_space_def digit_value_def count_digits_def)
  ultimately have h: "\<exists>e. py_int 10 (strip (form_get bad_nonce_request ''nonce'')) = Inl e"
    by simp
  then show ?thesis
    using start_process_rejects [of bad_nonce_request demo_lib "''id1''" no_jobs] by blast
qed

text \<open>
  Claim C6, as stated, at an empty text upload: the reader returns the empty list and no error,
  and \<open>start_process\<close> registers a job and launches its worker.
\<close>

theorem empty_source_counterexample:
  "read_wordlist_from_file demo_lib \<lparr>filename = Some ''w.txt'', stream = Bytes []\<rparr> = Inr [] \<and>
   start_process demo_lib ''id1'' blank_request no_jobs
     = Inr ((Job_id ''id1'', 200), no_jobs(''id1'' \<mapsto> new_job 0),
            Some \<lparr>job_id = ''id1'', wordlist_lines = [], target_hash = ''B'',
                  client_seed = ''cs'', nonce = 7, max_speed = 20000\<rparr>)"
proof -
  have l: "lower ''w.txt'' = ''w.txt''" by code_simp
  have r: "read_wordlist_from_file demo_lib \<lparr>filename = Some ''w.txt'', stream = Bytes []\<rparr> = Inr []"
    by (simp add: read_wordlist_from_file_def l endswith_def decode_text_def demo_lib_def
        splitlines_def clean_lines_def)
  have s: "strip ''B'' = ''B''" "strip ''cs'' = ''cs''" "strip ''7'' = ''7''"
    by (simp_all add: strip_def is_space_def)
  have p: "py_int 10 ''7'' = Inr 7"
    by (simp add: py_int_def skip_prefix_def int_space_def digit_value_def count_digits_def)
  have "start_process demo_lib ''id1'' blank_request no_jobs
     = Inr ((Job_id ''id1'', 200), no_jobs(''id1'' \<mapsto> new_job 0),
            Some \<lparr>job_id = ''id1'', wordlist_lines = [], target_hash = ''B'',
                  client_seed = ''cs'', nonce = 7, max_speed = 20000\<rparr>)"
    by (simp add: start_process_def blank_request_def form_get_def s p r strip_Nil)
  with r show ?thesis by simp
qed

lemma split_acc_chars:
  "l \<in> set (split_acc cur s) \<Longrightarrow> set l \<subseteq> set cur \<union> set s"
  by (induction cur s arbitrary: l rule: split_acc.induct) (auto split: if_splits)

lemma strip_spaces: "\<forall>c \<in> set l. is_space c \<Longrightarrow> strip l = []"
proof -
  assume a: "\<forall>c \<in> set l. is_space c"
  then have d: "dropWhile is_space l = []" by simp
  show ?thesis unfolding strip_def d by simp
qed

text \<open>A text of white space only has no candidate line.\<close>

lemma whitespace_all_blank:
  assumes "\<forall>c \<in> set t. is_space c"
  shows "all_blank (splitlines t)"
proof -
  have "strip l = []" if "l \<in> set (splitlines t)" for l
  proof -
    from that have "set l \<subseteq> set t" using split_acc_chars[of l "[]" t] by (simp add: splitlines_def)
    with assms show ?thesis by (intro strip_spaces) blast
  qed
  then show ?thesis by (simp add: all_blank_def list_all_iff)
qed

lemma clean_lines_Nil_iff: "clean_lines ls = [] \<longleftrightarrow> all_blank ls"
  by (auto simp: clean_lines_def all_blank_def list_all_iff filter_empty_conv strip_Nil)

text \<open>The reader returns the empty list exactly for the uploads that open without a line.\<close>

lemma read_empty_iff:
  "read_wordlist_from_file L f = Inr [] \<longleftrightarrow> opens_without_lines L f"
  by (auto simp: read_wordlist_from_file_def opens_without_lines_def Let_def clean_lines_Nil_iff
      zip_lines_concat entry_lines_def decode_text_def latin1_decode_def
      split: option.splits stream_content.splits)

text \<open>
  Claim C6, amended. A candidate source that opens and holds no candidate line is not an
  error: the reader returns the empty list; and when the digest, the seed and the nonce are
  valid, and the upload opens without a line or the inline text has only blank lines,
  \<open>start_process\<close> answers 200 with the job id, registers a queued job with \<open>total = 0\<close> and
  launches its worker on the empty list. An upload named as a zip archive that does not open
  makes the reader raise: the exception leaves the route and no job is created.
\<close>

theorem empty_source_starts_job:
  "(opens_without_lines L f \<longrightarrow> read_wordlist_from_file L f = Inr [])
   \<and> (\<not> missing_field req ''hashedSeed'' \<and> \<not> missing_field req ''clientSeed''
       \<and> py_int 10 (strip (form_get req ''nonce'')) = Inr n
       \<and> ((files req ''wordlist'' = Some f \<and> opens_without_lines L f)
            \<or> (files req ''wordlist'' = None \<and>
                (\<exists>inline. form req ''wordlistText'' = Some inline \<and> all_blank (splitlines inline))))
      \<longrightarrow> (\<exists>t. start_process L jid req jobs
                   = Inr ((Job_id jid, 200), jobs(jid \<mapsto> new_job 0), Some t)
                \<and> job_id t = jid \<and> wordlist_lines t = []
                \<and> total (new_job 0) = 0 \<and> status (new_job 0) = Queued))
   \<and> (\<not> missing_field req ''hashedSeed'' \<and> \<not> missing_field req ''clientSeed''
       \<and> py_int 10 (strip (form_get req ''nonce'')) = Inr n
       \<and> files req ''wordlist'' = Some f \<and> filename f = Some fname
       \<and> endswith (lower fname) ''.zip'' \<and> zip_namelist L (stream f) = None
      \<longrightarrow> start_process L jid req jobs = Inl BadZipFile)"
proof -
  have one: "read_wordlist_from_file L f = Inr []" if "opens_without_lines L f"
    using that by (simp add: read_empty_iff)
  have valid: "strip (form_get req ''hashedSeed'') \<noteq> [] \<and> strip (form_get req ''clientSeed'') \<noteq> []
               \<and> strip (form_get req ''nonce'') \<noteq> []"
    if "\<not> missing_field req ''hashedSeed''" "\<not> missing_field req ''clientSeed''"
      "py_int 10 (strip (form_get req ''nonce'')) = Inr n"
    using that by (auto simp: missing_field_strip py_int_Nil)
  have two: "\<exists>t. start_process L jid req jobs
                   = Inr ((Job_id jid, 200), jobs(jid \<mapsto> new_job 0), Some t)
                \<and> job_id t = jid \<and> wordlist_lines t = []
                \<and> total (new_job 0) = 0 \<and> status (new_job 0) = Queued"
    if v: "\<not> missing_field req ''hashedSeed''" "\<not> missing_field req ''clientSeed''"
      "py_int 10 (strip (form_get req ''nonce'')) = Inr n"
      and src: "(files req ''wordlist'' = Some f \<and> opens_without_lines L f)
            \<or> (files req ''wordlist'' = None \<and>
                (\<exists>inline. form req ''wordlistText'' = Some inline \<and> all_blank (splitlines inline)))"
  proof -
    note present = valid[OF v]
    from src show ?thesis
    proof
      assume "files req ''wordlist'' = Some f \<and> opens_without_lines L f"
      then have "files req ''wordlist'' = Some f" "read_wordlist_from_file L f = Inr []"
        using one by simp_all
      then show ?thesis
        using present v(3) by (simp add: start_process_def Let_def new_job_def)
    next
      assume "files req ''wordlist'' = None \<and>
                (\<exists>inline. form req ''wordlistText'' = Some inline \<and> all_blank (splitlines inline))"
      then obtain inline where t: "files req ''wordlist'' = None"
        "form req ''wordlistText'' = Some inline" "all_blank (splitlines inline)" by blast
      have "filter (\<lambda>ln. strip ln \<noteq> []) (splitlines inline) = []"
        using t(3) by (simp add: filter_empty_conv all_blank_def list_all_iff)
      then show ?thesis
        using present v(3) t(1,2) by (simp add: start_process_def Let_def new_job_def)
    qed
  qed
  have three: "start_process L jid req jobs = Inl BadZipFile"
    if v: "\<not> missing_field req ''hashedSeed''" "\<not> missing_field req ''clientSeed''"
      "py_int 10 (strip (form_get req ''nonce'')) = Inr n"
      and z: "files req ''wordlist'' = Some f" "filename f = Some fname"
        "endswith (lower fname) ''.zip''" "zip_namelist L (stream f) = None"
  proof -
    have "read_wordlist_from_file L f = Inl BadZipFile"
      using z(2-4) by (simp add: read_wordlist_from_file_def)
    then show ?thesis
      using valid[OF v] v(3) z(1) by (simp add: start_process_def Let_def)
  qed
  show ?thesis using one two three by blast
qed

lemma demo_fields:
  "strip ''B'' = ''B''" "strip ''cs'' = ''cs''" "strip ''7'' = ''7''" "py_int 10 ''7'' = Inr 7"
  "lower ''w.txt'' = ''w.txt''" "lower ''w.zip'' = ''w.zip''"
  by (simp_all add: strip_def is_space_def py_int_def skip_prefix_def int_space_def
      digit_value_def count_digits_def lower_def lower_char_def)

theorem empty_source_starts_job_witness:
  "opens_without_lines demo_lib \<lparr>filename = Some ''w.txt'', stream = Bytes []\<rparr> \<and>
   read_wordlist_from_file demo_lib \<lparr>filename = Some ''w.txt'', stream = Bytes []\<rparr> = Inr [] \<and>
   \<not> missing_field blank_request ''hashedSeed'' \<and> \<not> missing_field blank_request ''clientSeed'' \<and>
   py_int 10 (strip (form_get blank_request ''nonce'')) = Inr 7 \<and>
   files blank_request ''wordlist'' = Some \<lparr>filename = Some ''w.txt'', stream = Bytes []\<rparr> \<and>
   (\<exists>t. start_process demo_lib ''id1'' blank_request no_jobs
            = Inr ((Job_id ''id1'', 200), no_jobs(''id1'' \<mapsto> new_job 0), Some t)
        \<and> job_id t = ''id1'' \<and> wordlist_lines t = []
        \<and> total (new_job 0) = 0 \<and> status (new_job 0) = Queued) \<and>
   files broken_zip_request ''wordlist'' = Some \<lparr>filename = Some ''w.zip'', stream = Bytes ''junk''\<rparr> \<and>
   endswith (lower ''w.zip'') ''.zip'' \<and> zip_namelist closed_lib (Bytes ''junk'') = None \<and>
   start_process closed_lib ''id1'' broken_zip_request no_jobs = Inl BadZipFile"
proof -
  let ?f = "\<lparr>filename = Some ''w.txt'', stream = Bytes []\<rparr>"
  let ?z = "\<lparr>filename = Some ''w.zip'', stream = Bytes ''junk''\<rparr>"
  have o: "opens_without_lines demo_lib ?f"
    by (simp add: opens_without_lines_def demo_fields endswith_def demo_lib_def splitlines_def
        all_blank_def)
  have m: "\<not> missing_field blank_request ''hashedSeed''" "\<not> missing_field blank_request ''clientSeed''"
    "py_int 10 (strip (form_get blank_request ''nonce'')) = Inr 7"
    "files blank_request ''wordlist'' = Some ?f"
    by (simp_all add: missing_field_def blank_request_def form_get_def demo_fields)
  have b: "\<not> missing_field broken_zip_request ''hashedSeed''"
    "\<not> missing_field broken_zip_request ''clientSeed''"
    "py_int 10 (strip (form_get broken_zip_request ''nonce'')) = Inr 7"
    "files broken_zip_request ''wordlist'' = Some ?z" "filename ?z = Some ''w.zip''"
    "endswith (lower ''w.zip'') ''.zip''" "zip_namelist closed_lib (stream ?z) = None"
    by (simp_all add: missing_field_def broken_zip_request_def form_get_def demo_fields
        endswith_def closed_lib_def)
  from empty_source_starts_job [where L = demo_lib and f = ?f and req = blank_request and n = 7
      and jid = "''id1''" and jobs = no_jobs] o m
  have first: "read_wordlist_from_file demo_lib ?f = Inr []"
    "\<exists>t. start_process demo_lib ''id1'' blank_request no_jobs
            = Inr ((Job_id ''id1'', 200), no_jobs(''id1'' \<mapsto> new_job 0), Some t)
        \<and> job_id t = ''id1'' \<and> wordlist_lines t = []
        \<and> total (new_job 0) = 0 \<and> status (new_job 0) = Queued"
    by blast+
  from empty_source_starts_job [where L = closed_lib and f = ?z and req = broken_zip_request and n = 7
      and fname = "''w.zip''" and jid = "''id1''" and jobs = no_jobs] b
  have second: "start_process closed_lib ''id1'' broken_zip_request no_jobs = Inl BadZipFile"
    by blast
  show ?thesis using o m b first second by simp
qed

subsection \<open>The worker running alone\<close>

lemma update_progress_keeps [simp]:
  "paused (update_progress L now n idx j) = paused j"
  "status (update_progress L now n idx j) = status j"
  "match (update_progress L now n idx j) = match j"
  "roll (update_progress L now n idx j) = roll j"
  "done_flag (update_progress L now n idx j) = done_flag j"
  "total (update_progress L now n idx j) = total j"
  "start_time (update_progress L now n idx j) = start_time j"
  "processed (update_progress L now n idx j) = idx"
  by (simp_all add: update_progress_def Let_def)



text \<open>Whenever the loop returns, it has met a match or gone through the whole list.\<close>

lemma job_loop_returns:
  assumes "job_loop L now T idx rest j = Returned j'"
  shows "(status j' = Completed \<and> (\<exists>c \<in> set rest. is_match L (target_hash T) c \<and> match j' = Some c))
       \<or> (status j' = Finished_no_match \<and> (\<forall>c \<in> set rest. \<not> is_match L (target_hash T) c)
          \<and> processed j' = (if rest = [] then processed j else idx + length rest))"
  using assms
proof (induction rest arbitrary: idx j)
  case Nil
  then show ?case by (auto simp: finish_no_match_def)
next
  case (Cons seed rest)
  let ?j = "update_progress L now (length (wordlist_lines T)) (Suc idx) j"
  from Cons.prems have np: "\<not> paused j" by (auto split: if_splits)
  show ?case
  proof (cases "is_match L (target_hash T) seed")
    case True
    with Cons.prems np obtain r where "j' = found seed r ?j"
      by (auto simp: Let_def split: sum.splits)
    then show ?thesis using True by (simp add: found_def)
  next
    case False
    with Cons.prems np have "job_loop L now T (Suc idx) rest ?j = Returned j'"
      by (auto simp: Let_def split: option.splits)
    from Cons.IH[OF this] False show ?thesis by (cases rest) auto
  qed
qed


lemma demo_lower: "lower ''a'' = ''a''" "lower ''b'' = ''b''" "lower ''B'' = ''b''" "lower ''zz'' = ''zz''"
  by code_simp+



subsection \<open>The interleaved system\<close>

lemma worker_inv_initial: "worker_inv T (initial_sys T)"
  by (simp add: worker_inv_def initial_sys_def new_job_def)

lemma worker_step_inv:
  assumes "worker_inv T s" and "worker_step L now T s = Some s'"
  shows "worker_inv T s'"
proof (cases "pc s")
  case (Head idx rest)
  then show ?thesis using assms
    by (cases rest) (auto simp: worker_inv_def worker_step_def split: if_splits)
next
  case (Found seed)
  then show ?thesis using assms
    by (auto simp: worker_inv_def worker_step_def split: sum.splits)
next
  case (Body idx seed rest)
  then show ?thesis using assms
    by (auto simp: worker_inv_def worker_step_def Let_def split: if_splits option.splits)
qed (use assms in \<open>auto simp: worker_inv_def worker_step_def init_job_def split: if_splits\<close>)

lemma pause_job_inv:
  assumes "worker_inv T s" and "pause_job s = Some s'"
  shows "worker_inv T s'"
  using assms
  by (cases "pc s")
     (auto simp: worker_inv_def pause_job_def split: option.splits holder.splits bool.splits if_splits)

lemma resume_job_inv:
  assumes "worker_inv T s" and "resume_job s = Some s'"
  shows "worker_inv T s'"
  using assms
  by (cases "pc s")
     (auto simp: worker_inv_def resume_job_def split: option.splits holder.splits bool.splits if_splits)

lemma exec_inv: "worker_inv T s \<Longrightarrow> exec L now T a s = Some s' \<Longrightarrow> worker_inv T s'"
  by (cases a) (auto intro: worker_step_inv pause_job_inv resume_job_inv)

lemma run_schedule_inv:
  "worker_inv T s \<Longrightarrow> run_schedule L now T sched s = Some s' \<Longrightarrow> worker_inv T s'"
proof (induction sched arbitrary: s)
  case Nil
  then show ?case by simp
next
  case (Cons a sched)
  then show ?case by (auto split: option.splits dest: exec_inv)
qed

lemma run_schedule_append:
  "run_schedule L now T (xs @ ys) s =
     (case run_schedule L now T xs s of None \<Rightarrow> None | Some s' \<Rightarrow> run_schedule L now T ys s')"
  by (induction xs arbitrary: s) (auto split: option.splits)

lemma reachable_inv:
  "run_schedule L now T sched (initial_sys T) = Some s \<Longrightarrow> worker_inv T s"
  using run_schedule_inv[OF worker_inv_initial] .


lemma exec_processed:
  assumes "worker_inv T s" and "exec L now T a s = Some s'"
  shows "processed (the_job s) \<le> processed (the_job s') \<and> total (the_job s') = total (the_job s)"
proof (cases a)
  case Work
  show ?thesis
  proof (cases "pc s")
    case (Head idx rest)
    then show ?thesis using assms Work
      by (cases rest) (auto simp: worker_step_def split: if_splits)
  next
    case (Found seed)
    then show ?thesis using assms Work
      by (auto simp: worker_step_def split: sum.splits)
  next
    case (Body idx seed rest)
    then show ?thesis using assms Work
      by (auto simp: worker_inv_def worker_step_def Let_def split: if_splits option.splits)
  qed (use assms Work in \<open>auto simp: worker_inv_def worker_step_def init_job_def split: if_splits\<close>)
next
  case Pause_op
  then show ?thesis using assms
    by (auto simp: pause_job_def split: option.splits holder.splits bool.splits if_splits)
next
  case Resume_op
  then show ?thesis using assms
    by (auto simp: resume_job_def split: option.splits holder.splits bool.splits if_splits)
qed

lemma run_schedule_processed:
  "worker_inv T s \<Longrightarrow> run_schedule L now T sched s = Some s' \<Longrightarrow>
   processed (the_job s) \<le> processed (the_job s') \<and> total (the_job s') = total (the_job s)"
proof (induction sched arbitrary: s)
  case Nil
  then show ?case by simp
next
  case (Cons a sched)
  from Cons.prems(2) obtain s1 where s1: "exec L now T a s = Some s1"
    "run_schedule L now T sched s1 = Some s'"
    by (auto split: option.splits)
  from exec_processed[OF Cons.prems(1) s1(1)] Cons.IH[OF exec_inv[OF Cons.prems(1) s1(1)] s1(2)]
  show ?case by auto
qed

text \<open>
  Claim C9. In every state of every interleaving, \<open>processed\<close> lies between 0 and \<open>total\<close>
  (it is a natural number), and between two states taken in time order \<open>processed\<close> does not
  decrease while \<open>total\<close> stays the same.
\<close>

theorem processed_bounded_monotone:
  assumes "run_schedule L now T sched (initial_sys T) = Some s"
    and "run_schedule L now T later s = Some s'"
  shows "0 \<le> processed (the_job s) \<and> processed (the_job s) \<le> total (the_job s) \<and>
         processed (the_job s) \<le> processed (the_job s') \<and>
         processed (the_job s') \<le> total (the_job s') \<and>
         total (the_job s') = total (the_job s)"
proof -
  have i: "worker_inv T s" using assms(1) by (rule reachable_inv)
  have i': "worker_inv T s'" using i assms(2) by (rule run_schedule_inv)
  from i i' run_schedule_processed[OF i assms(2)] show ?thesis
    by (simp add: worker_inv_def)
qed

lemma throttle_demo: "throttle 20000 = None"
  by (simp add: throttle_def float_raises_def)

lemmas demo_eval =
  initial_sys_def new_job_def demo_task_def demo_lib_def demo_clock_def empty_task_def
  other_task_def worker_step_def pause_job_def resume_job_def init_job_def update_progress_def
  is_match_def hashed_candidate_def demo_lower py_trunc_def throttle_demo

theorem processed_bounded_monotone_witness:
  "\<exists>s s'. run_schedule demo_lib demo_clock demo_task [Work, Work, Work] (initial_sys demo_task) = Some s
     \<and> run_schedule demo_lib demo_clock demo_task [Work, Pause_op, Work] s = Some s'
     \<and> processed (the_job s) = 1 \<and> processed (the_job s') = 2 \<and> total (the_job s') = 2
     \<and> 0 \<le> processed (the_job s) \<and> processed (the_job s) \<le> total (the_job s)
     \<and> processed (the_job s) \<le> processed (the_job s')
     \<and> processed (the_job s') \<le> total (the_job s')
     \<and> total (the_job s') = total (the_job s)"
proof -
  have "\<exists>s s'. run_schedule demo_lib demo_clock demo_task [Work, Work, Work] (initial_sys demo_task) = Some s
     \<and> run_schedule demo_lib demo_clock demo_task [Work, Pause_op, Work] s = Some s'
     \<and> processed (the_job s) = 1 \<and> processed (the_job s') = 2 \<and> total (the_job s') = 2"
    by (simp add: demo_eval)
  then obtain s s' where
    s: "run_schedule demo_lib demo_clock demo_task [Work, Work, Work] (initial_sys demo_task) = Some s"
    and s': "run_schedule demo_lib demo_clock demo_task [Work, Pause_op, Work] s = Some s'"
    and v: "processed (the_job s) = 1" "processed (the_job s') = 2" "total (the_job s') = 2"
    by blast
  from processed_bounded_monotone [OF s s'] s s' v show ?thesis by blast
qed

subsection \<open>Status changes\<close>








subsection \<open>Pause and resume\<close>

text \<open>
  While the worker waits it holds the lock: its own step leaves the state as it is, and no
  route can enter \<open>with job['lock']\<close>, so the flag it waits for is never cleared.
\<close>

lemma exec_while_waiting:
  assumes "pc s = Waiting idx seed rest" and "lock s = Some Worker" and "paused (the_job s)"
  shows "exec L now T Work s = Some s" and "exec L now T Pause_op s = None"
    and "exec L now T Resume_op s = None"
  using assms by (simp_all add: worker_step_def pause_job_def resume_job_def)

lemma waiting_forever:
  assumes "pc s = Waiting idx seed rest" and "lock s = Some Worker" and "paused (the_job s)"
    and "run_schedule L now T sched s = Some s'"
  shows "s' = s \<and> set sched \<subseteq> {Work}"
  using assms(4)
proof (induction sched)
  case Nil
  then show ?case by simp
next
  case (Cons a sched)
  show ?case
  proof (cases a)
    case Work
    with Cons.prems exec_while_waiting(1)[OF assms(1-3), of L now T]
    have "run_schedule L now T sched s = Some s'" by simp
    from Cons.IH[OF this] Work show ?thesis by simp
  next
    case Pause_op
    with Cons.prems exec_while_waiting(2)[OF assms(1-3), of L now T] show ?thesis by simp
  next
    case Resume_op
    with Cons.prems exec_while_waiting(3)[OF assms(1-3), of L now T] show ?thesis by simp
  qed
qed

lemma reachable_waiting_forever:
  assumes "run_schedule L now T sched (initial_sys T) = Some s" and "pc s = Waiting idx seed rest"
    and "run_schedule L now T later s = Some s'"
  shows "s' = s \<and> set later \<subseteq> {Work}"
proof -
  have "worker_inv T s" using assms(1) by (rule reachable_inv)
  with assms(2) have "lock s = Some Worker" "paused (the_job s)"
    by (simp_all add: worker_inv_def)
  from waiting_forever[OF assms(2) this assms(3)] show ?thesis .
qed

text \<open>
  Claim C5 on the candidates \<open>[a, b]\<close>: a pause request completes during the first iteration,
  the worker finishes that iteration (\<open>processed = 1\<close>), sees the flag at the head of the next
  one and waits with the lock held. From then on a resume request cannot take the lock, and
  further worker steps change nothing.
\<close>

theorem resume_blocked_while_worker_waits:
  "map_option pc
     (run_schedule demo_lib demo_clock demo_task
        [Work, Work, Pause_op, Pause_op, Pause_op, Work, Work] (initial_sys demo_task))
     = Some (Waiting 1 ''b'' [])
   \<and> map_option lock
     (run_schedule demo_lib demo_clock demo_task
        [Work, Work, Pause_op, Pause_op, Pause_op, Work, Work] (initial_sys demo_task))
     = Some (Some Worker)
   \<and> map_option (processed \<circ> the_job)
     (run_schedule demo_lib demo_clock demo_task
        [Work, Work, Pause_op, Pause_op, Pause_op, Work, Work] (initial_sys demo_task))
     = Some 1
   \<and> run_schedule demo_lib demo_clock demo_task
        [Work, Work, Pause_op, Pause_op, Pause_op, Work, Work, Resume_op] (initial_sys demo_task)
     = None
   \<and> run_schedule demo_lib demo_clock demo_task
        [Work, Work, Pause_op, Pause_op, Pause_op, Work, Work, Work, Work, Work]
        (initial_sys demo_task)
     = run_schedule demo_lib demo_clock demo_task
        [Work, Work, Pause_op, Pause_op, Pause_op, Work, Work] (initial_sys demo_task)"
  by (simp add: demo_eval)

subsection \<open>The two descriptions of the worker agree\<close>

lemma worker_reaches_step:
  assumes "worker_step L now T s = Some s1" and "worker_reaches L now T s1 s'"
  shows "worker_reaches L now T s s'"
proof -
  from assms(2) obtain k where "run_schedule L now T (replicate k Work) s1 = Some s'"
    by (auto simp: worker_reaches_def)
  with assms(1) have "run_schedule L now T (replicate (Suc k) Work) s = Some s'" by simp
  then show ?thesis unfolding worker_reaches_def by blast
qed

lemma worker_reaches_refl: "worker_reaches L now T s s"
  unfolding worker_reaches_def by (rule exI[of _ 0]) simp




text \<open>With the pause flag set and a candidate to process, both descriptions end in the wait.\<close>

lemma worker_alone_blocked:
  assumes "paused j" and "wordlist_lines T = seed # rest"
  shows "process_job L now T j = Blocked (init_job now (length (wordlist_lines T)) j)"
    and "worker_reaches L now T \<lparr>the_job = j, lock = None, pc = Start\<rparr>
           \<lparr>the_job = init_job now (length (wordlist_lines T)) j, lock = Some Worker,
            pc = Waiting 0 seed rest\<rparr>"
proof -
  let ?j0 = "init_job now (length (wordlist_lines T)) j"
  have p: "paused ?j0" using assms(1) by (simp add: init_job_def)
  show "process_job L now T j = Blocked ?j0"
    using p assms(2) by (simp add: process_job_def)
  have a: "worker_step L now T \<lparr>the_job = j, lock = None, pc = Start\<rparr>
           = Some \<lparr>the_job = ?j0, lock = None, pc = Head 0 (seed # rest)\<rparr>"
    using assms(2) by (simp add: worker_step_def)
  have b: "worker_step L now T \<lparr>the_job = ?j0, lock = None, pc = Head 0 (seed # rest)\<rparr>
           = Some \<lparr>the_job = ?j0, lock = Some Worker, pc = Waiting 0 seed rest\<rparr>"
    using p by (simp add: worker_step_def)
  show "worker_reaches L now T \<lparr>the_job = j, lock = None, pc = Start\<rparr>
           \<lparr>the_job = ?j0, lock = Some Worker, pc = Waiting 0 seed rest\<rparr>"
    using a b by (blast intro: worker_reaches_step worker_reaches_refl)
qed

subsection \<open>The scan invariant\<close>













subsection \<open>Claims about the search\<close>


















end
